theory Spec2Isabelle
  imports Main
begin

section \<open>Python string operations used by \<open>encontrar_dispositivo.py\<close>\<close>

text \<open>
  A Python \<open>str\<close> is a sequence of code points. The model is \<^typ>\<open>string\<close>, one
  \<^typ>\<open>char\<close> per code point, so it covers the texts whose code points lie in
  U+0000..U+00FF (ASCII and Latin-1), which is where device output lives. On that range
  the definitions below follow CPython: \<open>str.isspace\<close>, \<open>str.lower\<close>,
  \<open>str.splitlines\<close>, \<open>str.split()\<close>, \<open>str.strip()\<close>, \<open>in\<close> and
  \<open>str.startswith\<close>.
\<close>

definition isspace :: "char \<Rightarrow> bool" where
  \<comment> \<open>\<open>str.isspace\<close> and the regular expression class \<open>\s\<close>: TAB, LF, VT, FF, CR,
      FS, GS, RS, US, SPACE, NEL (0x85) and NBSP (0xA0).\<close>
  "isspace c =
     (let n = (of_char c :: nat)
      in (9 \<le> n \<and> n \<le> 13) \<or> (28 \<le> n \<and> n \<le> 32) \<or> n = 133 \<or> n = 160)"

definition is_linebreak :: "char \<Rightarrow> bool" where
  \<comment> \<open>the single-character line boundaries of \<open>str.splitlines\<close>: LF, VT, FF, CR, FS, GS,
      RS and NEL (0x85); CR LF together is one boundary, see \<open>splitlines_acc\<close>.\<close>
  "is_linebreak c =
     (let n = (of_char c :: nat)
      in (10 \<le> n \<and> n \<le> 13) \<or> (28 \<le> n \<and> n \<le> 30) \<or> n = 133)"

definition lower_char :: "char \<Rightarrow> char" where
  \<comment> \<open>\<open>str.lower\<close> on one code point: A-Z, and the Latin-1 capitals 0xC0..0xDE without
      the multiplication sign 0xD7, move up by 32; every other code point stays.\<close>
  "lower_char c =
     (let n = (of_char c :: nat)
      in if (65 \<le> n \<and> n \<le> 90) \<or> (192 \<le> n \<and> n \<le> 222 \<and> n \<noteq> 215)
         then char_of (n + 32) else c)"

definition lower :: "string \<Rightarrow> string" where
  "lower s = map lower_char s"

definition strip :: "string \<Rightarrow> string" where
  \<comment> \<open>\<open>s.strip()\<close>: whitespace removed at both ends only.\<close>
  "strip s = rev (dropWhile isspace (rev (dropWhile isspace s)))"

definition remove_char :: "char \<Rightarrow> string \<Rightarrow> string" where
  \<comment> \<open>\<open>s.replace(c, "")\<close> for a one-character \<open>c\<close>.\<close>
  "remove_char c s = filter (\<lambda>d. d \<noteq> c) s"

fun startswith :: "string \<Rightarrow> string \<Rightarrow> bool" where
  "startswith s [] = True"
| "startswith [] (p # ps) = False"
| "startswith (c # cs) (p # ps) = (c = p \<and> startswith cs ps)"

fun contains :: "string \<Rightarrow> string \<Rightarrow> bool" where
  \<comment> \<open>\<open>sub in s\<close>, written \<open>contains s sub\<close>.\<close>
  "contains [] sub = (sub = [])"
| "contains (c # cs) sub = (startswith (c # cs) sub \<or> contains cs sub)"

fun splitlines_acc :: "string \<Rightarrow> string \<Rightarrow> string list" where
  \<comment> \<open>the first argument is the current line so far, reversed\<close>
  "splitlines_acc acc [] = (if acc = [] then [] else [rev acc])"
| "splitlines_acc acc [c] =
     (if is_linebreak c then [rev acc] else [rev (c # acc)])"
| "splitlines_acc acc (c # d # cs) =
     (if c = CHR 0x0D \<and> d = CHR 0x0A then rev acc # splitlines_acc [] cs
      else if is_linebreak c then rev acc # splitlines_acc [] (d # cs)
      else splitlines_acc (c # acc) (d # cs))"

definition splitlines :: "string \<Rightarrow> string list" where
  \<comment> \<open>\<open>s.splitlines()\<close>: boundaries are dropped, and there is no empty last line.\<close>
  "splitlines s = splitlines_acc [] s"

fun split_acc :: "string \<Rightarrow> string \<Rightarrow> string list" where
  \<comment> \<open>the first argument is the current field so far, reversed\<close>
  "split_acc acc [] = (if acc = [] then [] else [rev acc])"
| "split_acc acc (c # cs) =
     (if isspace c
      then (if acc = [] then split_acc [] cs else rev acc # split_acc [] cs)
      else split_acc (c # acc) cs)"

definition split :: "string \<Rightarrow> string list" where
  \<comment> \<open>\<open>s.split()\<close>: fields between runs of whitespace, none of them empty.\<close>
  "split s = split_acc [] s"

section \<open>Regular expressions of the source\<close>

text \<open>
  The source calls \<open>re.search\<close> with five patterns. Three of them match a fixed number of
  characters, one character class per position; \<open>re.search\<close> then returns the leftmost
  position where every class accepts its character. A pattern of that kind is the list
  of its classes.
\<close>

definition is_hex :: "char \<Rightarrow> bool" where
  \<comment> \<open>\<open>[0-9a-f]\<close> under \<open>re.I\<close>\<close>
  "is_hex c =
     (let n = (of_char c :: nat)
      in (48 \<le> n \<and> n \<le> 57) \<or> (97 \<le> n \<and> n \<le> 102) \<or> (65 \<le> n \<and> n \<le> 70))"

definition is_lower_hex :: "char \<Rightarrow> bool" where
  "is_lower_hex c =
     (let n = (of_char c :: nat)
      in (48 \<le> n \<and> n \<le> 57) \<or> (97 \<le> n \<and> n \<le> 102))"

fun match_here :: "(char \<Rightarrow> bool) list \<Rightarrow> string \<Rightarrow> string option" where
  \<comment> \<open>the pattern matched at the start of the text: the characters it consumed\<close>
  "match_here [] s = Some []"
| "match_here (p # ps) [] = None"
| "match_here (p # ps) (c # cs) =
     (if p c then (case match_here ps cs of None \<Rightarrow> None | Some m \<Rightarrow> Some (c # m))
      else None)"

fun re_search :: "(char \<Rightarrow> bool) list \<Rightarrow> string \<Rightarrow> string option" where
  \<comment> \<open>\<open>re.search\<close> for a fixed-width pattern: \<open>group(0)\<close> of the leftmost match\<close>
  "re_search pat [] = match_here pat []"
| "re_search pat (c # cs) =
     (case match_here pat (c # cs) of Some m \<Rightarrow> Some m | None \<Rightarrow> re_search pat cs)"

definition hex4 :: "(char \<Rightarrow> bool) list" where
  "hex4 = [is_hex, is_hex, is_hex, is_hex]"

definition pat_dotted :: "(char \<Rightarrow> bool) list" where
  \<comment> \<open>\<open>([0-9a-f]{4}\.[0-9a-f]{4}\.[0-9a-f]{4})\<close>, \<open>re.I\<close>\<close>
  "pat_dotted = hex4 @ [\<lambda>c. c = CHR ''.''] @ hex4 @ [\<lambda>c. c = CHR ''.''] @ hex4"

definition octet_sep :: "(char \<Rightarrow> bool) list" where
  \<comment> \<open>\<open>[0-9a-f]{2}(:|-)\<close>\<close>
  "octet_sep = [is_hex, is_hex, \<lambda>c. c = CHR '':'' \<or> c = CHR ''-'']"

definition pat_octets :: "(char \<Rightarrow> bool) list" where
  \<comment> \<open>\<open>([0-9a-f]{2}(:|-)){5}[0-9a-f]{2}\<close>, \<open>re.I\<close>\<close>
  "pat_octets = octet_sep @ octet_sep @ octet_sep @ octet_sep @ octet_sep @ [is_hex, is_hex]"

definition pat_hex12 :: "(char \<Rightarrow> bool) list" where
  \<comment> \<open>\<open>([0-9a-f]{12})\<close>, \<open>re.I\<close>\<close>
  "pat_hex12 = hex4 @ hex4 @ hex4"

section \<open>MAC normalisation\<close>

definition normalize_mac_to_dots :: "string \<Rightarrow> string option" where
  "normalize_mac_to_dots mac_raw =
     (if mac_raw = [] then None
      else
        let s = remove_char (CHR ''-'') (remove_char (CHR '':'') (remove_char (CHR ''.'')
                  (lower (strip mac_raw))))
        in if length s \<noteq> 12 then None
           else Some (take 4 s @ ''.'' @ take 4 (drop 4 s) @ ''.'' @ take 4 (drop 8 s)))"

section \<open>The regular expressions with repetition\<close>

definition is_digit_or_dot :: "char \<Rightarrow> bool" where
  \<comment> \<open>\<open>[\d\.]\<close>: among the code points below 256 the decimal digits are 0-9.\<close>
  "is_digit_or_dot c =
     (let n = (of_char c :: nat) in (48 \<le> n \<and> n \<le> 57) \<or> c = CHR ''.'')"

fun search_ip_address :: "string \<Rightarrow> string option" where
  \<comment> \<open>\<open>re.search(r"IP address:\s*([\d\.]+)", line)\<close>, the value is \<open>group(1)\<close>. At a
      start position \<open>\s*\<close> takes the whole run of whitespace; giving some of it back
      cannot help, since the group does not accept whitespace.\<close>
  "search_ip_address [] = None"
| "search_ip_address (c # cs) =
     (if startswith (c # cs) ''IP address:''
      then (case dropWhile isspace (drop 11 (c # cs)) of
              [] \<Rightarrow> search_ip_address cs
            | d # ds \<Rightarrow>
                if is_digit_or_dot d then Some (takeWhile is_digit_or_dot (d # ds))
                else search_ip_address cs)
      else search_ip_address cs)"

definition after_colon :: "string \<Rightarrow> string option" where
  \<comment> \<open>\<open>\s*(\S+)\<close> at the start of the text\<close>
  "after_colon s =
     (case dropWhile isspace s of
        [] \<Rightarrow> None
      | d # ds \<Rightarrow> Some (takeWhile (\<lambda>c. \<not> isspace c) (d # ds)))"

fun greedy_colon :: "string \<Rightarrow> string option" where
  \<comment> \<open>\<open>.*:\s*(\S+)\<close> at the start of the text: \<open>.*\<close> is greedy, so the colon taken is
      the last one that the rest of the pattern can follow; \<open>.\<close> does not match LF.\<close>
  "greedy_colon [] = None"
| "greedy_colon (c # cs) =
     (case (if c = CHR 0x0A then None else greedy_colon cs) of
        Some g \<Rightarrow> Some g
      | None \<Rightarrow> if c = CHR '':'' then after_colon cs else None)"

fun search_port_id :: "string \<Rightarrow> string option" where
  \<comment> \<open>\<open>re.search(r"Port ID .*:\s*(\S+)", line)\<close>, the value is \<open>group(1)\<close>\<close>
  "search_port_id [] = None"
| "search_port_id (c # cs) =
     (if startswith (c # cs) ''Port ID ''
      then (case greedy_colon (drop 8 (c # cs)) of
              Some g \<Rightarrow> Some g
            | None \<Rightarrow> search_port_id cs)
      else search_port_id cs)"

section \<open>Output parsers\<close>

fun find_mac_loop :: "string list \<Rightarrow> string \<Rightarrow> string option" where
  "find_mac_loop [] ip_target = None"
| "find_mac_loop (line # rest) ip_target =
     (if contains line ip_target
      then (case re_search pat_dotted line of
              Some m \<Rightarrow> normalize_mac_to_dots m
            | None \<Rightarrow>
               (case re_search pat_octets line of
                  Some m2 \<Rightarrow> normalize_mac_to_dots m2
                | None \<Rightarrow>
                   (case re_search pat_hex12 (remove_char (CHR '' '') line) of
                      Some m3 \<Rightarrow> normalize_mac_to_dots m3
                    | None \<Rightarrow> find_mac_loop rest ip_target)))
      else find_mac_loop rest ip_target)"

definition find_mac_in_arp :: "string \<Rightarrow> string \<Rightarrow> string option" where
  "find_mac_in_arp arp_output ip_target = find_mac_loop (splitlines arp_output) ip_target"

fun find_interface_loop :: "string list \<Rightarrow> string \<Rightarrow> string option" where
  "find_interface_loop [] mac_normalized = None"
| "find_interface_loop (line # rest) mac_normalized =
     (if mac_normalized \<noteq> [] \<and> contains (lower line) (lower mac_normalized)
      then (let parts = split line
            in if length parts \<ge> 4 then Some (last parts)
               else find_interface_loop rest mac_normalized)
      else find_interface_loop rest mac_normalized)"

definition find_interface_by_mac :: "string \<Rightarrow> string \<Rightarrow> string option" where
  "find_interface_by_mac mac_table_output mac_normalized =
     find_interface_loop (splitlines mac_table_output) mac_normalized"

record cdp_neighbor =
  device_id :: string
  ips :: "string list"
  neighbor_port :: "string option"

type_synonym cdp_state = "string option \<times> string list \<times> string option"

definition after_first_colon :: "string \<Rightarrow> string" where
  \<comment> \<open>\<open>line.split(":", 1)[1]\<close>. The source reaches it only on a line whose lower-cased
      form starts with \<open>device id:\<close>, so the line has a colon and the index exists.\<close>
  "after_first_colon line = drop 1 (dropWhile (\<lambda>c. c \<noteq> CHR '':'') line)"

definition cdp_line :: "cdp_state \<Rightarrow> string \<Rightarrow> cdp_state" where
  \<comment> \<open>one round of the loop over the lines: the three variables before and after\<close>
  "cdp_line st raw_line =
     (case st of (dev, ip_list, port) \<Rightarrow>
        let line = strip raw_line;
            dev' = (if startswith (lower line) ''device id:''
                    then Some (strip (after_first_colon line)) else dev);
            ip_list' = (case search_ip_address line of
                          Some g \<Rightarrow> ip_list @ [g] | None \<Rightarrow> ip_list);
            port' = (case search_port_id line of Some g \<Rightarrow> Some g | None \<Rightarrow> port)
        in (dev', ip_list', port'))"

definition parse_cdp_int_detail_for_ip :: "string \<Rightarrow> cdp_neighbor option" where
  "parse_cdp_int_detail_for_ip cdp_output =
     (if cdp_output = [] \<or> \<not> contains cdp_output ''Device ID'' then None
      else
        (case foldl cdp_line (None, [], None) (splitlines cdp_output) of
           (dev, ip_list, port) \<Rightarrow>
             (case dev of
                None \<Rightarrow> None
              | Some d \<Rightarrow>
                  if d \<noteq> []
                  then Some \<lparr>device_id = d, ips = ip_list, neighbor_port = port\<rparr>
                  else None)))"

fun hostname_loop :: "string list \<Rightarrow> string option" where
  \<comment> \<open>\<open>line.split()[0]\<close> would raise on a line with no field; a line that contains
      \<open>" uptime "\<close> has one, so that branch of the model is never taken.\<close>
  "hostname_loop [] = None"
| "hostname_loop (line # rest) =
     (if contains line '' uptime ''
      then (case split line of [] \<Rightarrow> None | t # ts \<Rightarrow> Some t)
      else if startswith (lower line) ''hostname''
      then (let parts = split line
            in if length parts \<ge> 2 then Some (last parts) else hostname_loop rest)
      else hostname_loop rest)"

definition get_hostname_from_show_ver :: "string \<Rightarrow> string option" where
  "get_hostname_from_show_ver show_ver = hostname_loop (splitlines show_ver)"

section \<open>The network, and credential negotiation\<close>

text \<open>
  The devices are outside the program. A switch is modelled by what the program can
  observe of it: which username and password it accepts, and the text it answers to a
  command. A network maps a host address to the switch that answers there, if any.
  \<open>ConnectHandler\<close> raises when the host does not answer or refuses the credentials;
  both are the value \<open>None\<close>. A session is the answering function of its switch.
\<close>

record switch =
  accepts :: "string \<Rightarrow> string \<Rightarrow> bool"
  respond :: "string \<Rightarrow> string"

type_synonym network = "string \<Rightarrow> switch option"

type_synonym session = "string \<Rightarrow> string"

definition COMMON_USERNAMES :: "string list" where
  "COMMON_USERNAMES = [''cisco'', ''admin'', ''cisco123'']"

definition COMMON_PASSWORDS :: "string list" where
  "COMMON_PASSWORDS = [''cisco'', ''cisco123'', ''cisco99'', ''admin'']"

definition CMD_ARP :: string where "CMD_ARP = ''show ip arp''"
definition CMD_MAC :: string where "CMD_MAC = ''show mac address-table''"
definition CMD_MAC_ALT :: string where "CMD_MAC_ALT = ''show mac-address-table''"
definition CMD_VER :: string where "CMD_VER = ''show version''"

definition CMD_CDP_INT_FMT :: "string \<Rightarrow> string" where
  \<comment> \<open>\<open>"show cdp neighbors {} detail".format(intf)\<close>\<close>
  "CMD_CDP_INT_FMT intf = ''show cdp neighbors '' @ intf @ '' detail''"

fun add_missing :: "(string \<times> string) list \<Rightarrow> (string \<times> string) list \<Rightarrow> (string \<times> string) list" where
  \<comment> \<open>the nested loops that append each pair of the cross product not yet in the list\<close>
  "add_missing combos [] = combos"
| "add_missing combos (up # ups) =
     add_missing (if up \<notin> set combos then combos @ [up] else combos) ups"

definition combos :: "string \<Rightarrow> string \<Rightarrow> (string \<times> string) list" where
  "combos user_given pass_given =
     add_missing
       ([(user_given, pass_given)]
        @ [(user_given, p). p \<leftarrow> COMMON_PASSWORDS, p \<noteq> pass_given]
        @ [(u, pass_given). u \<leftarrow> COMMON_USERNAMES, u \<noteq> user_given])
       [(u, p). u \<leftarrow> COMMON_USERNAMES, p \<leftarrow> COMMON_PASSWORDS]"

definition ConnectHandler :: "network \<Rightarrow> string \<Rightarrow> string \<Rightarrow> string \<Rightarrow> session option" where
  "ConnectHandler net host user pwd =
     (case net host of
        None \<Rightarrow> None
      | Some sw \<Rightarrow> if accepts sw user pwd then Some (respond sw) else None)"

fun try_combos :: "network \<Rightarrow> string \<Rightarrow> (string \<times> string) list \<Rightarrow> (session \<times> string \<times> string) option" where
  "try_combos net host [] = None"
| "try_combos net host ((user, pwd) # rest) =
     (case ConnectHandler net host user pwd of
        Some conn \<Rightarrow> Some (conn, (user, pwd))
      | None \<Rightarrow> try_combos net host rest)"

definition try_connect :: "network \<Rightarrow> string \<Rightarrow> string \<Rightarrow> string \<Rightarrow> (session \<times> string \<times> string) option" where
  "try_connect net host user_given pass_given =
     try_combos net host (combos user_given pass_given)"

section \<open>The topology walk\<close>

record trace_result =
  ip :: string
  device :: string
  interface :: string
  mac :: string

text \<open>
  The walk is a \<open>while True\<close> loop whose only state is \<open>current_host\<close>. One round of
  the loop is \<open>hop\<close>: it ends in \<open>return None\<close> (\<open>Failed\<close>), in the return of a
  result (\<open>Terminal\<close>), or at the bottom of the loop body with a new \<open>current_host\<close>
  (\<open>Continue\<close>). \<open>send_command\<close> is taken to answer with a text; \<open>disconnect\<close> and
  \<open>sleep\<close> do not change what is returned. The source's truth tests (\<open>x or y\<close>,
  \<open>not x\<close>) hold for \<open>None\<close> and for the empty string and the empty list alike,
  and are written out.
\<close>

datatype hop_outcome = Failed | Terminal trace_result | Continue string

definition hop :: "network \<Rightarrow> string \<Rightarrow> string \<Rightarrow> string \<Rightarrow> string \<Rightarrow> hop_outcome" where
  "hop net current_host user pwd ip_objetivo =
     (case try_connect net current_host user pwd of
        None \<Rightarrow> Failed
      | Some (conn, creds) \<Rightarrow>
          let show_ver = conn CMD_VER;
              hostname = (case get_hostname_from_show_ver show_ver of
                            None \<Rightarrow> current_host
                          | Some h \<Rightarrow> if h = [] then current_host else h);
              arp_out = conn CMD_ARP;
              mac_opt = find_mac_in_arp arp_out ip_objetivo
          in if mac_opt = None \<or> mac_opt = Some [] then Failed
             else
               let mac_found = the mac_opt;
                   mac_table_first = conn CMD_MAC;
                   mac_table_out =
                     (if mac_table_first = [] \<or> contains mac_table_first ''Invalid input''
                      then conn CMD_MAC_ALT else mac_table_first);
                   intf_opt = find_interface_by_mac mac_table_out mac_found
               in if intf_opt = None \<or> intf_opt = Some [] then Failed
                  else
                    let intf = the intf_opt;
                        cdp_out = conn (CMD_CDP_INT_FMT intf);
                        vecino_info = parse_cdp_int_detail_for_ip cdp_out;
                        found = \<lparr>ip = ip_objetivo, device = hostname,
                                 interface = intf, mac = mac_found\<rparr>
                    in (case vecino_info of
                          None \<Rightarrow> Terminal found
                        | Some vecino \<Rightarrow>
                            (case ips vecino of
                               [] \<Rightarrow> Terminal found
                             | next_host # others \<Rightarrow> Continue next_host)))"

text \<open>
  The loop need not return, so its value is an option around the source's own result:
  \<open>None\<close> when the loop runs forever, \<open>Some None\<close> for the source's \<open>return None\<close>,
  \<open>Some (Some r)\<close> for a result.
\<close>

partial_function (option) rastrear_ip_hasta_host ::
  "network \<Rightarrow> string \<Rightarrow> string \<Rightarrow> string \<Rightarrow> string \<Rightarrow> trace_result option option" where
  "rastrear_ip_hasta_host net current_host user pwd ip_objetivo =
     (case hop net current_host user pwd ip_objetivo of
        Failed \<Rightarrow> Some None
      | Terminal found \<Rightarrow> Some (Some found)
      | Continue next_host \<Rightarrow> rastrear_ip_hasta_host net next_host user pwd ip_objetivo)"

section \<open>Vocabulary of the properties\<close>

definition stripped_mac :: "string \<Rightarrow> string" where
  \<comment> \<open>the stripped form of a raw MAC: surrounding whitespace off, lower-cased,
      the separators removed\<close>
  "stripped_mac mac_raw =
     remove_char (CHR ''-'') (remove_char (CHR '':'') (remove_char (CHR ''.'')
       (lower (strip mac_raw))))"

definition dotted_groups :: "string \<Rightarrow> string" where
  "dotted_groups s = take 4 s @ ''.'' @ take 4 (drop 4 s) @ ''.'' @ take 4 (drop 8 s)"

definition lower_hex4 :: "(char \<Rightarrow> bool) list" where
  "lower_hex4 = [is_lower_hex, is_lower_hex, is_lower_hex, is_lower_hex]"

definition pat_canonical :: "(char \<Rightarrow> bool) list" where
  "pat_canonical =
     lower_hex4 @ [\<lambda>c. c = CHR ''.''] @ lower_hex4 @ [\<lambda>c. c = CHR ''.''] @ lower_hex4"

definition is_canonical_mac :: "string \<Rightarrow> bool" where
  \<comment> \<open>\<open>xxxx.xxxx.xxxx\<close> with twelve lower-case hexadecimal digits\<close>
  "is_canonical_mac m = list_all2 (\<lambda>p c. p c) pat_canonical m"

definition line_mac :: "string \<Rightarrow> string option" where
  \<comment> \<open>the MAC text of one ARP line: the three forms in their order of precedence\<close>
  "line_mac line =
     (case re_search pat_dotted line of
        Some m \<Rightarrow> Some m
      | None \<Rightarrow>
         (case re_search pat_octets line of
            Some m2 \<Rightarrow> Some m2
          | None \<Rightarrow> re_search pat_hex12 (remove_char (CHR '' '') line)))"

definition cdp_lines :: "string \<Rightarrow> string list" where
  \<comment> \<open>the lines of a neighbor-detail text, trimmed, as the parser's loop sees them\<close>
  "cdp_lines cdp_output = map strip (splitlines cdp_output)"

definition is_device_id_line :: "string \<Rightarrow> bool" where
  "is_device_id_line line = startswith (lower line) ''device id:''"

definition last_option :: "'a list \<Rightarrow> 'a option" where
  "last_option xs = (case xs of [] \<Rightarrow> None | y # ys \<Rightarrow> Some (last xs))"

section \<open>The hop and the test networks\<close>

text \<open>
  \<open>mac_table_of\<close> and \<open>display_name\<close> name two values that a hop computes on the
  way: the MAC-table text it ends up with, and the name it reports for the device. The
  switches and networks below are the concrete inputs of the examples.
\<close>

definition mac_table_of :: "session \<Rightarrow> string" where
  "mac_table_of conn =
     (if conn CMD_MAC = [] \<or> contains (conn CMD_MAC) ''Invalid input''
      then conn CMD_MAC_ALT else conn CMD_MAC)"

definition display_name :: "session \<Rightarrow> string \<Rightarrow> string" where
  "display_name conn current_host =
     (case get_hostname_from_show_ver (conn CMD_VER) of
        None \<Rightarrow> current_host | Some h \<Rightarrow> h)"

definition lab_switch :: "string \<Rightarrow> string \<Rightarrow> string \<Rightarrow> string \<Rightarrow> string \<Rightarrow> switch" where
  "lab_switch ver arp mac_table intf cdp =
     \<lparr>accepts = (\<lambda>u p. u = ''admin'' \<and> p = ''secret''),
      respond = (\<lambda>cmd. if cmd = CMD_VER then ver
                        else if cmd = CMD_ARP then arp
                        else if cmd = CMD_MAC then mac_table
                        else if cmd = CMD_CDP_INT_FMT intf then cdp
                        else [])\<rparr>"

definition arp_row :: string where
  "arp_row = ''Internet  10.0.0.5   4   aabb.ccdd.eeff  ARPA  Vlan1''"

definition sw_core :: switch where
  "sw_core = lab_switch ''SW1 uptime is 5 weeks'' arp_row
     ''  1    aabb.ccdd.eeff    DYNAMIC     Gi0/1'' ''Gi0/1''
     ''Device ID: SW2\<newline>IP address: 10.0.0.2\<newline>Port ID (outgoing port): Gi0/24''"

definition sw_access :: switch where
  "sw_access = lab_switch ''SW2 uptime is 1 day'' arp_row
     ''  1    aabb.ccdd.eeff    DYNAMIC     Gi1/0/1'' ''Gi1/0/1'' []"

definition sw_back :: switch where
  "sw_back = lab_switch ''SW2 uptime is 1 day'' arp_row
     ''  1    aabb.ccdd.eeff    DYNAMIC     Gi0/24'' ''Gi0/24''
     ''Device ID: SW1\<newline>IP address: 10.0.0.1\<newline>Port ID (outgoing port): Gi0/1''"

definition two_hosts :: "switch \<Rightarrow> switch option \<Rightarrow> network" where
  "two_hosts a b host =
     (if host = ''10.0.0.1'' then Some a else if host = ''10.0.0.2'' then b else None)"

definition lab_net :: network where
  "lab_net = two_hosts sw_core (Some sw_access)"

definition cycle_net :: network where
  "cycle_net = two_hosts sw_core (Some sw_back)"





section \<open>The candidate list of the credential negotiator\<close>

lemma distinct_add_missing: "distinct cs \<Longrightarrow> distinct (add_missing cs xs)"
  by (induction xs arbitrary: cs) auto

lemma length_add_missing: "length (add_missing cs xs) \<le> length cs + length xs"
proof (induction xs arbitrary: cs)
  case Nil
  then show ?case by simp
next
  case (Cons x xs)
  have "length (add_missing (if x \<notin> set cs then cs @ [x] else cs) xs)
          \<le> length (if x \<notin> set cs then cs @ [x] else cs) + length xs"
    by (rule Cons.IH)
  then show ?case by (simp split: if_splits)
qed

text \<open>
  Claim C4, as stated: the candidate list never repeats a pair and has at most
  \<open>N * M + 2\<close> pairs, \<open>N\<close> and \<open>M\<close> the lengths of the fallback lists. The bound fails
  when the operator's username and password are both outside the fallback lists: all
  \<open>M\<close> passwords are paired with the given username, all \<open>N\<close> usernames with the given
  password, and the whole cross product follows, 20 pairs against the claimed 14.
\<close>

theorem combos_bound_counterexample:
  "\<not> length (combos ''root'' ''toor'')
       \<le> length COMMON_USERNAMES * length COMMON_PASSWORDS + 2"
  by code_simp

text \<open>
  Claim C4, amended: for every operator-supplied pair the candidate list, which
  \<open>try_connect\<close> walks once from the front, contains no pair twice and has at most
  \<open>N * M + N + M + 1\<close> pairs.
\<close>

theorem combos_distinct_and_bounded:
  "distinct (combos user_given pass_given) \<and>
   length (combos user_given pass_given)
     \<le> length COMMON_USERNAMES * length COMMON_PASSWORDS
        + length COMMON_USERNAMES + length COMMON_PASSWORDS + 1"
proof
  show "distinct (combos user_given pass_given)"
    unfolding combos_def
    by (rule distinct_add_missing)
       (auto simp: COMMON_USERNAMES_def COMMON_PASSWORDS_def)
  show "length (combos user_given pass_given)
          \<le> length COMMON_USERNAMES * length COMMON_PASSWORDS
             + length COMMON_USERNAMES + length COMMON_PASSWORDS + 1"
    unfolding combos_def
    by (rule order_trans[OF length_add_missing])
       (simp add: COMMON_USERNAMES_def COMMON_PASSWORDS_def)
qed

section \<open>Characters and strings\<close>


lemma is_hex_lower_char: "is_hex (lower_char c) \<Longrightarrow> is_lower_hex (lower_char c)"
  by (auto simp: is_hex_def is_lower_hex_def lower_char_def Let_def split: if_splits)

lemma lower_char_hex: "is_hex c \<Longrightarrow> is_lower_hex (lower_char c)"
  by (auto simp: is_hex_def is_lower_hex_def lower_char_def Let_def split: if_splits)

lemma is_lower_hex_fix: "is_lower_hex c \<Longrightarrow> lower_char c = c"
  by (auto simp: is_lower_hex_def lower_char_def Let_def)

lemma is_lower_hex_is_hex: "is_lower_hex c \<Longrightarrow> is_hex c"
  by (auto simp: is_lower_hex_def is_hex_def Let_def)

lemma is_hex_not: "is_hex c \<Longrightarrow> \<not> isspace c \<and> c \<noteq> CHR ''.'' \<and> c \<noteq> CHR '':'' \<and> c \<noteq> CHR ''-''"
  by (auto simp: is_hex_def isspace_def Let_def)

lemma lower_char_sep: "lower_char c = CHR ''.'' \<longleftrightarrow> c = CHR ''.''"
   "lower_char c = CHR '':'' \<longleftrightarrow> c = CHR '':''"
   "lower_char c = CHR ''-'' \<longleftrightarrow> c = CHR ''-''"
  by (auto simp: lower_char_def Let_def split: if_splits
           dest!: arg_cong[where f="of_char :: char \<Rightarrow> nat"])

lemma split_acc_nonempty: "t \<in> set (split_acc acc s) \<Longrightarrow> t \<noteq> []"
  by (induction s arbitrary: acc) (auto split: if_splits)

lemma startswith_set: "startswith s p \<Longrightarrow> set p \<subseteq> set s"
  by (induction s p rule: startswith.induct) auto

lemma contains_set: "contains s p \<Longrightarrow> set p \<subseteq> set s"
proof (induction s)
  case Nil
  then show ?case by simp
next
  case (Cons a s)
  from Cons.prems have "startswith (a # s) p \<or> contains s p" by simp
  then show ?case
  proof
    assume "startswith (a # s) p"
    then show ?thesis by (rule startswith_set)
  next
    assume "contains s p"
    then have "set p \<subseteq> set s" by (rule Cons.IH)
    then show ?thesis by auto
  qed
qed

lemma split_acc_not_Nil: "acc \<noteq> [] \<or> (\<exists>c\<in>set s. \<not> isspace c) \<Longrightarrow> split_acc acc s \<noteq> []"
  by (induction s arbitrary: acc) auto

lemma strip_id: "\<forall>c\<in>set s. \<not> isspace c \<Longrightarrow> strip s = s"
proof -
  assume a: "\<forall>c\<in>set s. \<not> isspace c"
  have 1: "dropWhile isspace s = s" using a by (cases s) auto
  have 2: "dropWhile isspace (rev s) = rev s" using a by (cases "rev s") (auto simp: Cons_eq_append_conv dest!: arg_cong[where f=set])
  show ?thesis by (simp add: strip_def 1 2)
qed

section \<open>Normalised addresses\<close>







lemma normalize_eq: "normalize_mac_to_dots raw =
   (if length (stripped_mac raw) = 12 then Some (dotted_groups (stripped_mac raw)) else None)"
  by (auto simp: normalize_mac_to_dots_def stripped_mac_def dotted_groups_def Let_def
        strip_def lower_def remove_char_def)

lemma length12: "length s = 12 \<Longrightarrow> \<exists>a b c d e f g h i j k l. s = [a,b,c,d,e,f,g,h,i,j,k,l]"
  by (auto simp: length_Suc_conv eval_nat_numeral)

lemma canonical_groups:
  assumes "length s = 12" "list_all is_lower_hex s"
  shows "is_canonical_mac (dotted_groups s)"
proof -
  from length12[OF assms(1)] obtain a b c d e f g h i j k l where s: "s = [a,b,c,d,e,f,g,h,i,j,k,l]" by blast
  show ?thesis using assms(2) unfolding s
    by (simp add: is_canonical_mac_def dotted_groups_def pat_canonical_def lower_hex4_def)
qed

lemma stripped_hex_lower: "list_all is_hex (stripped_mac raw) \<Longrightarrow> list_all is_lower_hex (stripped_mac raw)"
  by (auto simp: stripped_mac_def remove_char_def lower_def list_all_iff intro: is_hex_lower_char)

text \<open>
  Claim C5, as stated: a result is returned only when the stripped string consists of
  exactly 12 hexadecimal characters. The source tests the length alone, so twelve
  characters of any kind are grouped and returned.
\<close>

theorem normalize_mac_to_dots_counterexample:
  "normalize_mac_to_dots ''zzzzzzzzzzzz'' = Some ''zzzz.zzzz.zzzz'' \<and>
   \<not> list_all is_hex (stripped_mac ''zzzzzzzzzzzz'')"
  by code_simp

text \<open>
  Claim C5, amended: \<open>normalize_mac_to_dots\<close> strips surrounding whitespace, lower-cases
  and removes the separators; it returns a result exactly when the stripped string has
  12 characters, whatever they are, re-emitting them as three groups of four separated
  by dots, which for 12 hexadecimal characters is the canonical form
  \<open>aabb.ccdd.eeff\<close>; every input whose stripped form has another length yields none.
\<close>

theorem normalize_mac_to_dots_by_length:
  "(length (stripped_mac mac_raw) = 12 \<longrightarrow>
      normalize_mac_to_dots mac_raw = Some (dotted_groups (stripped_mac mac_raw)) \<and>
      (list_all is_hex (stripped_mac mac_raw) \<longrightarrow>
         is_canonical_mac (dotted_groups (stripped_mac mac_raw)))) \<and>
   (length (stripped_mac mac_raw) \<noteq> 12 \<longrightarrow> normalize_mac_to_dots mac_raw = None)"
  by (simp add: normalize_eq canonical_groups stripped_hex_lower)

theorem normalize_mac_to_dots_by_length_witness:
  "normalize_mac_to_dots ''AA:BB:CC:DD:EE:FF'' = Some ''aabb.ccdd.eeff'' \<and>
   is_canonical_mac ''aabb.ccdd.eeff'' \<and>
   normalize_mac_to_dots ''aabb.cc'' = None"
proof -
  have 1: "stripped_mac ''AA:BB:CC:DD:EE:FF'' = ''aabbccddeeff''" by code_simp
  have 2: "dotted_groups ''aabbccddeeff'' = ''aabb.ccdd.eeff''" by code_simp
  have 3: "list_all is_hex ''aabbccddeeff''" by code_simp
  have 4: "length (stripped_mac ''aabb.cc'') \<noteq> 12" by code_simp
  show ?thesis
    using normalize_mac_to_dots_by_length[of "''AA:BB:CC:DD:EE:FF''"]
          normalize_mac_to_dots_by_length[of "''aabb.cc''"] 4
    unfolding 1 2 using 3 by simp
qed

section \<open>The ARP parser\<close>



lemma match_here_all2: "match_here pat s = Some m \<Longrightarrow> list_all2 (\<lambda>p c. p c) pat m"
  by (induction pat s arbitrary: m rule: match_here.induct) (auto split: if_splits option.splits)

lemma re_search_all2: "re_search pat s = Some m \<Longrightarrow> list_all2 (\<lambda>p c. p c) pat m"
  by (induction s) (auto split: option.splits dest: match_here_all2)

lemma sep_not_hex: "\<not> is_hex (CHR ''.'')" "\<not> is_hex (CHR '':'')" "\<not> is_hex (CHR ''-'')"
  by (simp_all add: is_hex_def)

lemma sep_not_space: "\<not> isspace (CHR ''.'')" "\<not> isspace (CHR '':'')" "\<not> isspace (CHR ''-'')"
  by (simp_all add: isspace_def)

lemma normalize_hexish:
  assumes hexish: "\<forall>c\<in>set x. is_hex c \<or> c = CHR ''.'' \<or> c = CHR '':'' \<or> c = CHR ''-''"
    and len: "length (filter is_hex x) = 12"
  shows "normalize_mac_to_dots x = Some (dotted_groups (map lower_char (filter is_hex x))) \<and>
         is_canonical_mac (dotted_groups (map lower_char (filter is_hex x)))"
proof -
  have nospace: "\<forall>c\<in>set x. \<not> isspace c"
    using hexish is_hex_not sep_not_space by blast
  have keep: "\<And>c. c \<in> set x \<Longrightarrow>
      (lower_char c \<noteq> CHR ''.'' \<and> lower_char c \<noteq> CHR '':'' \<and> lower_char c \<noteq> CHR ''-'') = is_hex c"
    using hexish is_hex_not sep_not_hex by (auto simp: lower_char_sep)
  have "stripped_mac x =
          map lower_char (filter (\<lambda>c. lower_char c \<noteq> CHR ''.'' \<and> lower_char c \<noteq> CHR '':''
                                     \<and> lower_char c \<noteq> CHR ''-'') x)"
    by (simp add: stripped_mac_def strip_id[OF nospace] lower_def remove_char_def filter_map
          comp_def conj_commute conj_left_commute)
  also have "\<dots> = map lower_char (filter is_hex x)"
    using keep by (simp cong: filter_cong)
  finally have s: "stripped_mac x = map lower_char (filter is_hex x)" .
  have l: "length (stripped_mac x) = 12" by (simp add: s len)
  have h: "list_all is_lower_hex (stripped_mac x)"
    by (simp add: s list_all_iff lower_char_hex)
  show ?thesis
    using canonical_groups[OF l h] l by (simp add: normalize_eq s)
qed

lemma pat_dotted_hexish:
  assumes "list_all2 (\<lambda>p c. p c) pat_dotted m"
  shows "(\<forall>c\<in>set m. is_hex c \<or> c = CHR ''.'' \<or> c = CHR '':'' \<or> c = CHR ''-'') \<and> length (filter is_hex m) = 12"
  using assms by (auto simp: pat_dotted_def hex4_def list_all2_Cons1 sep_not_hex)

lemma pat_octets_hexish:
  assumes "list_all2 (\<lambda>p c. p c) pat_octets m"
  shows "(\<forall>c\<in>set m. is_hex c \<or> c = CHR ''.'' \<or> c = CHR '':'' \<or> c = CHR ''-'') \<and> length (filter is_hex m) = 12"
  using assms by (auto simp: pat_octets_def octet_sep_def list_all2_Cons1 sep_not_hex)

lemma pat_hex12_hexish:
  assumes "list_all2 (\<lambda>p c. p c) pat_hex12 m"
  shows "(\<forall>c\<in>set m. is_hex c \<or> c = CHR ''.'' \<or> c = CHR '':'' \<or> c = CHR ''-'') \<and> length (filter is_hex m) = 12"
  using assms by (auto simp: pat_hex12_def hex4_def list_all2_Cons1 sep_not_hex)

lemma line_mac_normalizes:
  assumes "line_mac line = Some m"
  shows "\<exists>c. normalize_mac_to_dots m = Some c \<and> is_canonical_mac c"
proof -
  from assms have "list_all2 (\<lambda>p c. p c) pat_dotted m \<or> list_all2 (\<lambda>p c. p c) pat_octets m
      \<or> list_all2 (\<lambda>p c. p c) pat_hex12 m"
    by (auto simp: line_mac_def split: option.splits dest: re_search_all2)
  then have "(\<forall>c\<in>set m. is_hex c \<or> c = CHR ''.'' \<or> c = CHR '':'' \<or> c = CHR ''-'') \<and> length (filter is_hex m) = 12"
    using pat_dotted_hexish pat_octets_hexish pat_hex12_hexish by blast
  then show ?thesis using normalize_hexish by blast
qed

lemma find_mac_loop_eq:
  "find_mac_loop ls ip_target =
     (case find (\<lambda>l. contains l ip_target \<and> line_mac l \<noteq> None) ls of
        None \<Rightarrow> None
      | Some l \<Rightarrow> (case line_mac l of None \<Rightarrow> None | Some m \<Rightarrow> normalize_mac_to_dots m))"
  by (induction ls) (auto simp: line_mac_def split: option.splits)

lemma canonical_fixed:
  assumes "is_canonical_mac m"
  shows "normalize_mac_to_dots m = Some m"
proof -
  from assms obtain a b c d e f g h i j k l where
    m: "m = [a,b,c,d,CHR ''.'',e,f,g,h,CHR ''.'',i,j,k,l]"
    and hx: "list_all is_lower_hex [a,b,c,d,e,f,g,h,i,j,k,l]"
    by (auto simp: is_canonical_mac_def pat_canonical_def lower_hex4_def list_all2_Cons1)
  have hx': "list_all is_hex [a,b,c,d,e,f,g,h,i,j,k,l]"
    using hx by (simp add: is_lower_hex_is_hex)
  have 1: "\<forall>c\<in>set m. is_hex c \<or> c = CHR ''.'' \<or> c = CHR '':'' \<or> c = CHR ''-''"
    using hx' by (simp add: m)
  have 2: "filter is_hex m = [a,b,c,d,e,f,g,h,i,j,k,l]"
    using hx' by (simp add: m sep_not_hex)
  have 3: "map lower_char [a,b,c,d,e,f,g,h,i,j,k,l] = [a,b,c,d,e,f,g,h,i,j,k,l]"
    using hx by (simp add: is_lower_hex_fix)
  have len: "length (filter is_hex m) = 12" by (simp add: 2)
  have "normalize_mac_to_dots m = Some (dotted_groups (map lower_char (filter is_hex m)))"
    using normalize_hexish[OF 1 len] by (rule conjunct1)
  then have "normalize_mac_to_dots m = Some (dotted_groups [a,b,c,d,e,f,g,h,i,j,k,l])"
    by (simp only: 2 3)
  also have "dotted_groups [a,b,c,d,e,f,g,h,i,j,k,l] = m"
    by (simp add: dotted_groups_def m)
  finally show ?thesis .
qed

text \<open>
  Claim C6, as stated: the search looks at the first line that contains the target IP,
  and returns none if no MAC pattern matches on that line. In the source a line without
  a MAC does not end the \<open>for\<close> loop: the scan goes on to the later lines that contain
  the IP. Also, the third form is searched after the removal of space characters only,
  so a tab inside a run of twelve digits still breaks it.
\<close>

theorem find_mac_in_arp_counterexample:
  "splitlines ''Internet  10.0.0.5   0   Incomplete      ARPA\<newline>Internet  10.0.0.5   4   aabb.ccdd.eeff  ARPA  Vlan1''
     = [''Internet  10.0.0.5   0   Incomplete      ARPA'',
        ''Internet  10.0.0.5   4   aabb.ccdd.eeff  ARPA  Vlan1''] \<and>
   contains ''Internet  10.0.0.5   0   Incomplete      ARPA'' ''10.0.0.5'' \<and>
   line_mac ''Internet  10.0.0.5   0   Incomplete      ARPA'' = None \<and>
   find_mac_in_arp ''Internet  10.0.0.5   0   Incomplete      ARPA\<newline>Internet  10.0.0.5   4   aabb.ccdd.eeff  ARPA  Vlan1''
     ''10.0.0.5'' = Some ''aabb.ccdd.eeff''"
  by code_simp

text \<open>
  Claim C6, amended: \<open>find_mac_in_arp\<close> scans the lines for the first one that contains
  the target IP as a substring and carries a MAC in one of the three forms, taken in the
  order dotted groups, colon or dash separated octets, 12 contiguous hexadecimal
  characters after the removal of spaces; it returns that MAC normalised, and none when
  no line contains the IP or no line that contains it carries a MAC.
\<close>

theorem find_mac_in_arp_first_line_with_mac:
  "find_mac_in_arp arp_output ip_target =
     (case find (\<lambda>l. contains l ip_target \<and> line_mac l \<noteq> None) (splitlines arp_output) of
        None \<Rightarrow> None
      | Some l \<Rightarrow> (case line_mac l of None \<Rightarrow> None | Some m \<Rightarrow> normalize_mac_to_dots m))"
  by (simp add: find_mac_in_arp_def find_mac_loop_eq)

section \<open>The hostname parser\<close>

lemma uptime_has_field: "contains l '' uptime '' \<Longrightarrow> split l \<noteq> []"
proof -
  assume "contains l '' uptime ''"
  then have "CHR ''u'' \<in> set l" using contains_set by fastforce
  moreover have "\<not> isspace (CHR ''u'')" by (simp add: isspace_def)
  ultimately show ?thesis unfolding split_def by (intro split_acc_not_Nil) blast
qed

lemma hostname_loop_eq:
  "hostname_loop ls =
     (case find (\<lambda>l. contains l '' uptime '' \<or>
                      (startswith (lower l) ''hostname'' \<and> 2 \<le> length (split l))) ls of
        None \<Rightarrow> None
      | Some l \<Rightarrow> if contains l '' uptime '' then Some (hd (split l))
                  else Some (last (split l)))"
proof (induction ls)
  case Nil
  then show ?case by simp
next
  case (Cons l ls)
  show ?case
  proof (cases "contains l '' uptime ''")
    case True
    then obtain t ts where "split l = t # ts"
      using uptime_has_field by (cases "split l") auto
    with True show ?thesis by simp
  next
    case False
    then show ?thesis using Cons.IH by (simp add: Let_def)
  qed
qed

text \<open>
  Claim C7, as stated: the first field of a line that contains \<open>" uptime "\<close> is
  preferred, and a line that begins with \<open>hostname\<close> is used only if no line with
  \<open>" uptime "\<close> exists anywhere. The source makes both tests on each line in turn, so a
  \<open>hostname\<close> line that comes before the \<open>uptime\<close> line wins.
\<close>

theorem get_hostname_counterexample:
  "splitlines ''hostname SW1\<newline>SW2 uptime is 3 days'' = [''hostname SW1'', ''SW2 uptime is 3 days''] \<and>
   contains ''SW2 uptime is 3 days'' '' uptime '' \<and>
   get_hostname_from_show_ver ''hostname SW1\<newline>SW2 uptime is 3 days'' = Some ''SW1''"
  by code_simp

text \<open>
  Claim C7, amended: \<open>get_hostname_from_show_ver\<close> takes the first line, in the order of
  the text, that either contains the literal substring \<open>" uptime "\<close> or begins with
  \<open>hostname\<close> (letter case ignored) and has at least two whitespace-separated fields;
  it returns the first field of that line if the line contains \<open>" uptime "\<close>, its last
  field otherwise; it returns none when no line is of either kind.
\<close>

theorem get_hostname_first_line:
  "get_hostname_from_show_ver show_ver =
     (case find (\<lambda>l. contains l '' uptime '' \<or>
                      (startswith (lower l) ''hostname'' \<and> 2 \<le> length (split l)))
                (splitlines show_ver) of
        None \<Rightarrow> None
      | Some l \<Rightarrow> if contains l '' uptime '' then Some (hd (split l))
                  else Some (last (split l)))"
  by (simp add: get_hostname_from_show_ver_def hostname_loop_eq)

section \<open>The MAC-table parser\<close>

lemma find_interface_loop_eq:
  "mac_normalized \<noteq> [] \<Longrightarrow>
   find_interface_loop ls mac_normalized =
     (case find (\<lambda>l. contains (lower l) (lower mac_normalized) \<and> 4 \<le> length (split l)) ls of
        None \<Rightarrow> None
      | Some l \<Rightarrow> Some (last (split l)))"
  by (induction ls) (auto simp: Let_def)

text \<open>
  Claim C9: for every MAC-table text and canonical MAC (any non-empty string will do),
  \<open>find_interface_by_mac\<close> returns the last whitespace-separated field of the first line
  that contains the MAC as a substring, letter case ignored, and has at least four
  fields; a line that contains the MAC but has fewer fields is passed over; the result
  is none when no line qualifies.
\<close>

theorem find_interface_by_mac_first_row:
  "mac_normalized \<noteq> [] \<Longrightarrow>
   find_interface_by_mac mac_table_output mac_normalized =
     (case find (\<lambda>l. contains (lower l) (lower mac_normalized) \<and> 4 \<le> length (split l))
                (splitlines mac_table_output) of
        None \<Rightarrow> None
      | Some l \<Rightarrow> Some (last (split l)))"
  by (simp add: find_interface_by_mac_def find_interface_loop_eq)

theorem find_interface_by_mac_first_row_witness:
  "''aabb.ccdd.eeff'' \<noteq> [] \<and>
   find_interface_by_mac
     ''aabb.ccdd.eeff Gi1/0/9\<newline>  1    AABB.CCDD.EEFF    DYNAMIC     Gi1/0/1''
     ''aabb.ccdd.eeff'' = Some ''Gi1/0/1'' \<and>
   find_interface_by_mac ''aabb.ccdd.eeff Gi1/0/9'' ''aabb.ccdd.eeff'' = None"
proof -
  have h: "''aabb.ccdd.eeff'' \<noteq> []" by simp
  have 1: "(case find (\<lambda>l. contains (lower l) (lower ''aabb.ccdd.eeff'') \<and> 4 \<le> length (split l))
                (splitlines ''aabb.ccdd.eeff Gi1/0/9\<newline>  1    AABB.CCDD.EEFF    DYNAMIC     Gi1/0/1'') of
        None \<Rightarrow> None
      | Some l \<Rightarrow> Some (last (split l))) = Some ''Gi1/0/1''"
    by code_simp
  have 2: "(case find (\<lambda>l. contains (lower l) (lower ''aabb.ccdd.eeff'') \<and> 4 \<le> length (split l))
                (splitlines ''aabb.ccdd.eeff Gi1/0/9'') of
        None \<Rightarrow> None
      | Some l \<Rightarrow> Some (last (split l))) = None"
    by code_simp
  show ?thesis
    using find_interface_by_mac_first_row[OF h,
            of "''aabb.ccdd.eeff Gi1/0/9\<newline>  1    AABB.CCDD.EEFF    DYNAMIC     Gi1/0/1''"]
          find_interface_by_mac_first_row[OF h, of "''aabb.ccdd.eeff Gi1/0/9''"]
    unfolding 1 2 by simp
qed

section \<open>The neighbor-detail parser\<close>

lemma map_filter_snoc:
  "List.map_filter f (xs @ [x]) =
     List.map_filter f xs @ (case f x of None \<Rightarrow> [] | Some y \<Rightarrow> [y])"
  by (auto simp: List.map_filter_def split: option.splits)

lemma last_option_snoc: "last_option (xs @ [x]) = Some x"
  by (cases xs) (simp_all add: last_option_def)

lemma cdp_line_tuple:
  "cdp_line (dev, ip_list, port) raw =
     (if is_device_id_line (strip raw)
      then Some (strip (after_first_colon (strip raw))) else dev,
      ip_list @ (case search_ip_address (strip raw) of None \<Rightarrow> [] | Some g \<Rightarrow> [g]),
      case search_port_id (strip raw) of None \<Rightarrow> port | Some g \<Rightarrow> Some g)"
  by (simp add: cdp_line_def Let_def is_device_id_line_def split: option.splits)

lemma foldl_cdp_line:
  "foldl cdp_line (dev, ip_list, port) raw =
     ((case last_option (filter is_device_id_line (map strip raw)) of
         None \<Rightarrow> dev | Some l \<Rightarrow> Some (strip (after_first_colon l))),
      ip_list @ List.map_filter search_ip_address (map strip raw),
      (case last_option (List.map_filter search_port_id (map strip raw)) of
         None \<Rightarrow> port | Some g \<Rightarrow> Some g))"
proof (induction raw rule: rev_induct)
  case Nil
  then show ?case by (simp add: last_option_def List.map_filter_def)
next
  case (snoc x xs)
  have "foldl cdp_line (dev, ip_list, port) (xs @ [x])
          = cdp_line (foldl cdp_line (dev, ip_list, port) xs) x"
    by simp
  also have "\<dots> = cdp_line
      ((case last_option (filter is_device_id_line (map strip xs)) of
         None \<Rightarrow> dev | Some l \<Rightarrow> Some (strip (after_first_colon l))),
       ip_list @ List.map_filter search_ip_address (map strip xs),
       (case last_option (List.map_filter search_port_id (map strip xs)) of
         None \<Rightarrow> port | Some g \<Rightarrow> Some g)) x"
    by (simp only: snoc.IH)
  also have "\<dots> =
     ((case last_option (filter is_device_id_line (map strip (xs @ [x]))) of
         None \<Rightarrow> dev | Some l \<Rightarrow> Some (strip (after_first_colon l))),
      ip_list @ List.map_filter search_ip_address (map strip (xs @ [x])),
      (case last_option (List.map_filter search_port_id (map strip (xs @ [x]))) of
         None \<Rightarrow> port | Some g \<Rightarrow> Some g))"
    by (simp add: cdp_line_tuple map_filter_snoc last_option_snoc split: option.splits)
  finally show ?case .
qed

text \<open>
  Claim C8, as stated: whenever a device-id line exists, the result carries the IPs and
  the port. The source returns the record only if the identifier is a non-empty string:
  a line \<open>Device ID:\<close> with nothing behind the colon gives none, IP lines or not.
\<close>

theorem parse_cdp_counterexample:
  "filter is_device_id_line (cdp_lines ''Device ID:\<newline>IP address: 10.0.0.1'') = [''Device ID:''] \<and>
   contains ''Device ID:\<newline>IP address: 10.0.0.1'' ''Device ID'' \<and>
   parse_cdp_int_detail_for_ip ''Device ID:\<newline>IP address: 10.0.0.1'' = None"
  by code_simp

text \<open>
  Claim C8, amended: \<open>parse_cdp_int_detail_for_ip\<close> returns none for every text without
  the marker \<open>Device ID\<close>, and none when no trimmed line begins with \<open>device id:\<close>
  (letter case ignored) even if IP-address lines are present; when the marker is present
  and the last device-id line has a non-empty identifier behind its first colon, the
  result carries that identifier, the IPs found by the \<open>IP address:\<close> pattern on the
  lines in the order of the text, and the port of the last line that matches the
  \<open>Port ID ...:\<close> pattern.
\<close>

theorem parse_cdp_spec:
  "(\<not> contains cdp_output ''Device ID'' \<longrightarrow> parse_cdp_int_detail_for_ip cdp_output = None) \<and>
   (filter is_device_id_line (cdp_lines cdp_output) = [] \<longrightarrow>
      parse_cdp_int_detail_for_ip cdp_output = None) \<and>
   (contains cdp_output ''Device ID'' \<and>
    last_option (filter is_device_id_line (cdp_lines cdp_output)) = Some l \<and>
    strip (after_first_colon l) \<noteq> [] \<longrightarrow>
      parse_cdp_int_detail_for_ip cdp_output =
        Some \<lparr>device_id = strip (after_first_colon l),
              ips = List.map_filter search_ip_address (cdp_lines cdp_output),
              neighbor_port = last_option (List.map_filter search_port_id (cdp_lines cdp_output))\<rparr>)"
proof -
  have ne: "contains cdp_output ''Device ID'' \<Longrightarrow> cdp_output \<noteq> []" by auto
  show ?thesis
    by (auto simp: parse_cdp_int_detail_for_ip_def foldl_cdp_line cdp_lines_def last_option_def
          dest: ne split: option.splits list.splits)
qed

theorem parse_cdp_spec_witness:
  "parse_cdp_int_detail_for_ip
     ''Device ID: SW2\<newline>IP address: 10.0.0.1\<newline>Port ID (outgoing port): Gi0/1''
     = Some \<lparr>device_id = ''SW2'', ips = [''10.0.0.1''], neighbor_port = Some ''Gi0/1''\<rparr> \<and>
   parse_cdp_int_detail_for_ip ''IP address: 10.0.0.1'' = None \<and>
   parse_cdp_int_detail_for_ip ''Device IDs\<newline>IP address: 10.0.0.1'' = None"
proof -
  let ?T = "''Device ID: SW2\<newline>IP address: 10.0.0.1\<newline>Port ID (outgoing port): Gi0/1''"
  have 1: "contains ?T ''Device ID''" by code_simp
  have 2: "last_option (filter is_device_id_line (cdp_lines ?T)) = Some ''Device ID: SW2''"
    by code_simp
  have 3: "strip (after_first_colon ''Device ID: SW2'') = ''SW2''" by code_simp
  have 4: "List.map_filter search_ip_address (cdp_lines ?T) = [''10.0.0.1'']" by code_simp
  have 5: "last_option (List.map_filter search_port_id (cdp_lines ?T)) = Some ''Gi0/1''"
    by code_simp
  have 6: "\<not> contains ''IP address: 10.0.0.1'' ''Device ID''" by code_simp
  have 7: "filter is_device_id_line (cdp_lines ''Device IDs\<newline>IP address: 10.0.0.1'') = []"
    by code_simp
  show ?thesis
    using parse_cdp_spec[of ?T "''Device ID: SW2''"]
          parse_cdp_spec[of "''IP address: 10.0.0.1''"]
          parse_cdp_spec[of "''Device IDs\<newline>IP address: 10.0.0.1''"]
          1 2 6 7
    unfolding 3 4 5 by simp
qed

section \<open>The topology walk, hop by hop\<close>

lemma add_missing_prefix: "\<exists>zs. add_missing cs ys = cs @ zs"
proof (induction ys arbitrary: cs)
  case Nil
  then show ?case by simp
next
  case (Cons y ys)
  obtain zs where "add_missing (if y \<notin> set cs then cs @ [y] else cs) ys
                     = (if y \<notin> set cs then cs @ [y] else cs) @ zs"
    using Cons.IH by blast
  then show ?case by (cases "y \<in> set cs") auto
qed

lemma combos_head: "\<exists>zs. combos user_given pass_given = (user_given, pass_given) # zs"
proof -
  obtain zs where "combos user_given pass_given =
     ([(user_given, pass_given)]
        @ [(user_given, p). p \<leftarrow> COMMON_PASSWORDS, p \<noteq> pass_given]
        @ [(u, pass_given). u \<leftarrow> COMMON_USERNAMES, u \<noteq> user_given]) @ zs"
    unfolding combos_def using add_missing_prefix by blast
  then show ?thesis by simp
qed

lemma try_connect_given:
  assumes "net host = Some sw" "accepts sw user_given pass_given"
  shows "try_connect net host user_given pass_given = Some (respond sw, user_given, pass_given)"
proof -
  obtain zs where "combos user_given pass_given = (user_given, pass_given) # zs"
    using combos_head by blast
  then show ?thesis using assms by (simp add: try_connect_def ConnectHandler_def)
qed


lemma canonical_nonempty: "is_canonical_mac m \<Longrightarrow> m \<noteq> []"
  by (auto simp: is_canonical_mac_def pat_canonical_def lower_hex4_def)

lemma find_mac_in_arp_canonical:
  assumes "find_mac_in_arp arp_output ip_target = Some m"
  shows "is_canonical_mac m"
proof -
  from assms obtain l x where "line_mac l = Some x" "normalize_mac_to_dots x = Some m"
    by (auto simp: find_mac_in_arp_def find_mac_loop_eq split: option.splits)
  then show ?thesis using line_mac_normalizes by fastforce
qed

lemma split_last_nonempty: "split l \<noteq> [] \<Longrightarrow> last (split l) \<noteq> []"
  using split_acc_nonempty[of "last (split l)" "[]" l] by (simp add: split_def)

lemma find_interface_loop_nonempty:
  "find_interface_loop ls m = Some i \<Longrightarrow> i \<noteq> []"
proof (induction ls)
  case Nil
  then show ?case by simp
next
  case (Cons l ls)
  show ?case
  proof (cases "m \<noteq> [] \<and> contains (lower l) (lower m) \<and> 4 \<le> length (split l)")
    case True
    then have "split l \<noteq> []" by auto
    then have "last (split l) \<noteq> []" by (rule split_last_nonempty)
    moreover from True Cons.prems have "i = last (split l)" by (simp add: Let_def)
    ultimately show ?thesis by simp
  next
    case False
    with Cons.prems have "find_interface_loop ls m = Some i"
      by (auto simp: Let_def split: if_splits)
    then show ?thesis by (rule Cons.IH)
  qed
qed

lemma hostname_loop_nonempty: "hostname_loop ls = Some h \<Longrightarrow> h \<noteq> []"
proof (induction ls)
  case Nil
  then show ?case by simp
next
  case (Cons l ls)
  show ?case
  proof (cases "contains l '' uptime ''")
    case True
    with Cons.prems obtain ts where "split l = h # ts"
      by (auto split: list.splits)
    then have "h \<in> set (split_acc [] l)" by (simp add: split_def)
    then show ?thesis by (rule split_acc_nonempty)
  next
    case False
    show ?thesis
    proof (cases "startswith (lower l) ''hostname'' \<and> 2 \<le> length (split l)")
      case True
      then have "split l \<noteq> []" by auto
      then have "last (split l) \<noteq> []" by (rule split_last_nonempty)
      moreover from True False Cons.prems have "h = last (split l)" by (simp add: Let_def)
      ultimately show ?thesis by simp
    next
      case F2: False
      with False Cons.prems have "hostname_loop ls = Some h"
        by (auto simp: Let_def split: if_splits)
      then show ?thesis by (rule Cons.IH)
    qed
  qed
qed

lemma hop_after_lookups:
  assumes c: "try_connect net current_host user pwd = Some (conn, creds)"
    and m: "find_mac_in_arp (conn CMD_ARP) ip_objetivo = Some m"
    and i: "find_interface_by_mac (mac_table_of conn) m = Some i"
  shows "hop net current_host user pwd ip_objetivo =
     (case parse_cdp_int_detail_for_ip (conn (CMD_CDP_INT_FMT i)) of
        None \<Rightarrow> Terminal \<lparr>ip = ip_objetivo, device = display_name conn current_host,
                            interface = i, mac = m\<rparr>
      | Some vecino \<Rightarrow>
          (case ips vecino of
             [] \<Rightarrow> Terminal \<lparr>ip = ip_objetivo, device = display_name conn current_host,
                               interface = i, mac = m\<rparr>
           | next_host # others \<Rightarrow> Continue next_host))"
proof -
  have m0: "m \<noteq> []" using find_mac_in_arp_canonical[OF m] by (rule canonical_nonempty)
  have i0: "i \<noteq> []" using i find_interface_loop_nonempty by (simp add: find_interface_by_mac_def)
  have i': "find_interface_by_mac
     (if conn CMD_MAC = [] \<or> contains (conn CMD_MAC) ''Invalid input''
      then conn CMD_MAC_ALT else conn CMD_MAC) m = Some i"
    using i by (simp add: mac_table_of_def)
  have d: "(case get_hostname_from_show_ver (conn CMD_VER) of
              None \<Rightarrow> current_host
            | Some h \<Rightarrow> if h = [] then current_host else h) = display_name conn current_host"
    using hostname_loop_nonempty
    by (auto simp: display_name_def get_hostname_from_show_ver_def split: option.splits)
  show ?thesis
    unfolding hop_def c
    by (simp add: Let_def m m0 i' i0 d)
qed



lemma walk_Terminal: "hop net h user pwd ip_objetivo = Terminal r \<Longrightarrow>
   rastrear_ip_hasta_host net h user pwd ip_objetivo = Some (Some r)"
  by (subst rastrear_ip_hasta_host.simps) simp

lemma walk_Continue: "hop net h user pwd ip_objetivo = Continue h' \<Longrightarrow>
   rastrear_ip_hasta_host net h user pwd ip_objetivo =
   rastrear_ip_hasta_host net h' user pwd ip_objetivo"
  by (subst rastrear_ip_hasta_host.simps) simp

lemma hop_Terminal_mac:
  assumes "hop net h user pwd ip_objetivo = Terminal r"
  shows "is_canonical_mac (mac r)"
proof -
  from assms obtain conn creds where c: "try_connect net h user pwd = Some (conn, creds)"
    by (auto simp: hop_def split: option.splits)
  from assms c obtain m where m: "find_mac_in_arp (conn CMD_ARP) ip_objetivo = Some m"
    by (cases "find_mac_in_arp (conn CMD_ARP) ip_objetivo") (auto simp: hop_def Let_def)
  from assms c m obtain i where i: "find_interface_by_mac (mac_table_of conn) m = Some i"
    by (cases "find_interface_by_mac (mac_table_of conn) m")
       (auto simp: hop_def Let_def mac_table_of_def split: if_splits)
  from assms have "mac r = m"
    unfolding hop_after_lookups[OF c m i]
    by (auto split: option.splits list.splits)
  then show ?thesis using find_mac_in_arp_canonical[OF m] by simp
qed

lemma walk_result_mac:
  assumes "rastrear_ip_hasta_host net h user pwd ip_objetivo = Some y"
  shows "\<forall>r. y = Some r \<longrightarrow> is_canonical_mac (mac r)"
proof (rule rastrear_ip_hasta_host.raw_induct
         [where P = "\<lambda>net h user pwd ip_objetivo y. \<forall>r. y = Some r \<longrightarrow> is_canonical_mac (mac r)",
          OF _ assms], goal_cases)
  case (1 walk n h' u p i y')
  show ?case
  proof (cases "hop n h' u p i")
    case Failed
    with 1(2) show ?thesis by simp
  next
    case (Terminal r)
    with 1(2) hop_Terminal_mac[OF Terminal] show ?thesis by auto
  next
    case (Continue h'')
    with 1(2) have "walk n h'' u p i = Some y'" by simp
    then show ?thesis by (rule 1(1))
  qed
qed

lemma closed_transit_diverges:
  assumes closed: "\<And>h. h \<in> S \<Longrightarrow> \<exists>h'\<in>S. hop net h user pwd ip_objetivo = Continue h'"
    and start: "h \<in> S"
  shows "rastrear_ip_hasta_host net h user pwd ip_objetivo = None"
proof (rule ccontr)
  assume "rastrear_ip_hasta_host net h user pwd ip_objetivo \<noteq> None"
  then obtain y where y: "rastrear_ip_hasta_host net h user pwd ip_objetivo = Some y" by auto
  have "\<not> (net = net \<and> user = user \<and> pwd = pwd \<and> ip_objetivo = ip_objetivo \<and> h \<in> S)"
  proof (rule rastrear_ip_hasta_host.raw_induct
         [where P = "\<lambda>n h' u p i y'. \<not> (n = net \<and> u = user \<and> p = pwd \<and> i = ip_objetivo \<and> h' \<in> S)",
          OF _ y], goal_cases)
    case (1 walk n h' u p i y')
    show ?case
    proof
      assume a: "n = net \<and> u = user \<and> p = pwd \<and> i = ip_objetivo \<and> h' \<in> S"
      then obtain h'' where h'': "h'' \<in> S" "hop net h' user pwd ip_objetivo = Continue h''"
        using closed by blast
      with 1(2) a have "walk net h'' user pwd ip_objetivo = Some y'" by simp
      from 1(1)[OF this] h''(1) show False by simp
    qed
  qed
  with start show False by simp
qed

lemma lab_accepts: "accepts (lab_switch v a t i c) ''admin'' ''secret''"
  by (simp add: lab_switch_def)

text \<open>
  Claim C2: at a hop whose connection, ARP lookup and MAC-table lookup succeeded, the
  walk ends exactly when the neighbor parser returned none or a neighbor without IPs,
  and then returns the record made of the target IP, the extracted hostname (the dialed
  address if there is none), the interface found in the MAC table and the MAC resolved
  from ARP; otherwise it goes on with the first neighbor IP as the current host.
\<close>

theorem walker_decision:
  assumes "try_connect net current_host user pwd = Some (conn, creds)"
    and "find_mac_in_arp (conn CMD_ARP) ip_objetivo = Some m"
    and "find_interface_by_mac (mac_table_of conn) m = Some i"
  shows "rastrear_ip_hasta_host net current_host user pwd ip_objetivo =
     (case parse_cdp_int_detail_for_ip (conn (CMD_CDP_INT_FMT i)) of
        None \<Rightarrow> Some (Some \<lparr>ip = ip_objetivo, device = display_name conn current_host,
                               interface = i, mac = m\<rparr>)
      | Some vecino \<Rightarrow>
          (case ips vecino of
             [] \<Rightarrow> Some (Some \<lparr>ip = ip_objetivo, device = display_name conn current_host,
                                  interface = i, mac = m\<rparr>)
           | next_host # others \<Rightarrow>
               rastrear_ip_hasta_host net next_host user pwd ip_objetivo))"
  by (subst rastrear_ip_hasta_host.simps)
     (simp add: hop_after_lookups[OF assms] split: option.splits list.splits)

theorem walker_decision_witness:
  "rastrear_ip_hasta_host lab_net ''10.0.0.1'' ''admin'' ''secret'' ''10.0.0.5'' =
     Some (Some \<lparr>ip = ''10.0.0.5'', device = ''SW2'', interface = ''Gi1/0/1'',
                  mac = ''aabb.ccdd.eeff''\<rparr>)"
proof -
  have n1: "lab_net ''10.0.0.1'' = Some sw_core" by (simp add: lab_net_def two_hosts_def)
  have n2: "lab_net ''10.0.0.2'' = Some sw_access" by (simp add: lab_net_def two_hosts_def)
  have c1: "try_connect lab_net ''10.0.0.1'' ''admin'' ''secret''
              = Some (respond sw_core, ''admin'', ''secret'')"
    by (rule try_connect_given[of lab_net "''10.0.0.1''" sw_core, OF n1])
       (simp add: sw_core_def lab_accepts)
  have c2: "try_connect lab_net ''10.0.0.2'' ''admin'' ''secret''
              = Some (respond sw_access, ''admin'', ''secret'')"
    by (rule try_connect_given[of lab_net "''10.0.0.2''" sw_access, OF n2])
       (simp add: sw_access_def lab_accepts)
  have m1: "find_mac_in_arp (respond sw_core CMD_ARP) ''10.0.0.5'' = Some ''aabb.ccdd.eeff''"
    by code_simp
  have m2: "find_mac_in_arp (respond sw_access CMD_ARP) ''10.0.0.5'' = Some ''aabb.ccdd.eeff''"
    by code_simp
  have i1: "find_interface_by_mac (mac_table_of (respond sw_core)) ''aabb.ccdd.eeff''
              = Some ''Gi0/1''"
    by code_simp
  have i2: "find_interface_by_mac (mac_table_of (respond sw_access)) ''aabb.ccdd.eeff''
              = Some ''Gi1/0/1''"
    by code_simp
  have p1: "parse_cdp_int_detail_for_ip (respond sw_core (CMD_CDP_INT_FMT ''Gi0/1''))
              = Some \<lparr>device_id = ''SW2'', ips = [''10.0.0.2''],
                      neighbor_port = Some ''Gi0/24''\<rparr>"
    by code_simp
  have p2: "parse_cdp_int_detail_for_ip (respond sw_access (CMD_CDP_INT_FMT ''Gi1/0/1'')) = None"
    by code_simp
  have d2: "display_name (respond sw_access) ''10.0.0.2'' = ''SW2''" by code_simp
  show ?thesis
    using walker_decision[OF c1 m1 i1] walker_decision[OF c2 m2 i2]
    by (simp add: p1 p2 d2)
qed

section \<open>Whole traces\<close>

lemma core_hop:
  "hop (two_hosts sw_core b) ''10.0.0.1'' ''admin'' ''secret'' ''10.0.0.5'' = Continue ''10.0.0.2''"
proof -
  have n: "two_hosts sw_core b ''10.0.0.1'' = Some sw_core" by (simp add: two_hosts_def)
  have c: "try_connect (two_hosts sw_core b) ''10.0.0.1'' ''admin'' ''secret''
              = Some (respond sw_core, ''admin'', ''secret'')"
    by (rule try_connect_given[of "two_hosts sw_core b" "''10.0.0.1''" sw_core, OF n])
       (simp add: sw_core_def lab_accepts)
  have m: "find_mac_in_arp (respond sw_core CMD_ARP) ''10.0.0.5'' = Some ''aabb.ccdd.eeff''"
    by code_simp
  have i: "find_interface_by_mac (mac_table_of (respond sw_core)) ''aabb.ccdd.eeff''
              = Some ''Gi0/1''"
    by code_simp
  have p: "parse_cdp_int_detail_for_ip (respond sw_core (CMD_CDP_INT_FMT ''Gi0/1''))
              = Some \<lparr>device_id = ''SW2'', ips = [''10.0.0.2''],
                      neighbor_port = Some ''Gi0/24''\<rparr>"
    by code_simp
  show ?thesis by (simp add: hop_after_lookups[OF c m i] p)
qed



lemma lab_second_hop:
  "hop lab_net ''10.0.0.2'' ''admin'' ''secret'' ''10.0.0.5'' =
     Terminal \<lparr>ip = ''10.0.0.5'', device = ''SW2'', interface = ''Gi1/0/1'',
               mac = ''aabb.ccdd.eeff''\<rparr>"
  by code_simp

lemma lab_walk:
  "rastrear_ip_hasta_host lab_net ''10.0.0.1'' ''admin'' ''secret'' ''10.0.0.5'' =
     Some (Some \<lparr>ip = ''10.0.0.5'', device = ''SW2'', interface = ''Gi1/0/1'',
                  mac = ''aabb.ccdd.eeff''\<rparr>)"
  using walk_Continue[OF core_hop[of "Some sw_access"]] walk_Terminal[OF lab_second_hop]
  by (simp add: lab_net_def)

lemma back_hop:
  "hop cycle_net ''10.0.0.2'' ''admin'' ''secret'' ''10.0.0.5'' = Continue ''10.0.0.1''"
  by code_simp



text \<open>
  Claim C10: every MAC that \<open>find_mac_in_arp\<close> returns is canonical, twelve lower-case
  hexadecimal digits as \<open>xxxx.xxxx.xxxx\<close>, and \<open>normalize_mac_to_dots\<close> maps it to
  itself; so the \<open>mac\<close> field of every result of the walk is canonical.
\<close>

theorem mac_is_canonical:
  "(find_mac_in_arp arp_output ip_target = Some m \<longrightarrow>
      is_canonical_mac m \<and> normalize_mac_to_dots m = Some m) \<and>
   (rastrear_ip_hasta_host net current_host user pwd ip_objetivo = Some (Some r) \<longrightarrow>
      is_canonical_mac (mac r))"
  using find_mac_in_arp_canonical canonical_fixed walk_result_mac by blast

theorem mac_is_canonical_witness:
  "is_canonical_mac ''aabb.ccdd.eeff'' \<and>
   normalize_mac_to_dots ''aabb.ccdd.eeff'' = Some ''aabb.ccdd.eeff'' \<and>
   is_canonical_mac (mac \<lparr>ip = ''10.0.0.5'', device = ''SW2'', interface = ''Gi1/0/1'',
                          mac = ''aabb.ccdd.eeff''\<rparr>)"
proof -
  have 1: "find_mac_in_arp ''Internet  10.0.0.5   -   AA:BB:CC:DD:EE:FF  ARPA  Vlan1'' ''10.0.0.5''
             = Some ''aabb.ccdd.eeff''"
    by code_simp
  show ?thesis
    using mac_is_canonical[of "''Internet  10.0.0.5   -   AA:BB:CC:DD:EE:FF  ARPA  Vlan1''"
            "''10.0.0.5''" "''aabb.ccdd.eeff''" lab_net "''10.0.0.1''" "''admin''" "''secret''"
            "''10.0.0.5''"
            "\<lparr>ip = ''10.0.0.5'', device = ''SW2'', interface = ''Gi1/0/1'',
              mac = ''aabb.ccdd.eeff''\<rparr>"]
          1 lab_walk
    by blast
qed

text \<open>
  Claim C1: when neighbor discovery names a host that the trace has already visited,
  the walk must end, with failure. The source creates the set \<open>visited_hosts\<close> and then
  neither adds to it nor looks into it. On two switches that name each other as CDP
  neighbor the loop dials them in turn for ever: the walk has no value.
\<close>

theorem cycle_never_returns:
  "rastrear_ip_hasta_host cycle_net ''10.0.0.1'' ''admin'' ''secret'' ''10.0.0.5'' = None"
proof (rule closed_transit_diverges[where S = "{''10.0.0.1'', ''10.0.0.2''}"])
  fix h :: string
  assume "h \<in> {''10.0.0.1'', ''10.0.0.2''}"
  then show "\<exists>h'\<in>{''10.0.0.1'', ''10.0.0.2''}.
               hop cycle_net h ''admin'' ''secret'' ''10.0.0.5'' = Continue h'"
    using core_hop[of "Some sw_back"] back_hop by (auto simp: cycle_net_def)
next
  show "''10.0.0.1'' \<in> {''10.0.0.1'', ''10.0.0.2''}" by simp
qed

end
